theory Spec2Isabelle
  imports Main "HOL-Library.Word" "HOL-Library.Monad_Syntax"
begin

unbundle bit_operations_syntax

section \<open>Byte strings (std::string_view)\<close>

text \<open>
  A \<^verbatim>\<open>std::string_view\<close> is a \<^typ>\<open>string\<close>, one \<^typ>\<open>char\<close> per byte.  The carriage
  return of the wire format is \<^verbatim>\<open>kCR\<close>, and \<^verbatim>\<open>krOKr\<close> is the terminator of multi-line
  replies (AtResponse.cpp, lines 39-40).
\<close>

abbreviation kCR :: char where
  "kCR \<equiv> CHR 0x0D"

definition krOKr :: string where
  "krOKr = [kCR, CHR ''O'', CHR ''K'', kCR]"

text \<open>
  The value of a \<^verbatim>\<open>char\<close> promoted to \<^verbatim>\<open>int\<close>.  The model takes \<^verbatim>\<open>char\<close> as signed (the
  x86 targets); on a target with unsigned \<^verbatim>\<open>char\<close> the bytes from 0x80 on compare
  differently, 7-bit input is read the same way on both.
\<close>

definition char_int :: "char \<Rightarrow> int" where
  "char_int c = (if (of_char c :: nat) < 128 then int (of_char c) else int (of_char c) - 256)"

text \<open>\<^verbatim>\<open>s.starts_with(p)\<close>.\<close>

definition starts_with :: "string \<Rightarrow> string \<Rightarrow> bool" where
  "starts_with s p = (take (length p) s = p)"

text \<open>
  \<^verbatim>\<open>str.find(needle, pos)\<close>: the least index \<open>i \<ge> pos\<close> at which \<open>needle\<close> occurs in
  \<open>str\<close>; \<open>None\<close> is \<^verbatim>\<open>npos\<close>.  \<open>find_in needle off s\<close> searches the tail \<open>s\<close> that
  starts at offset \<open>off\<close>.
\<close>

fun find_in :: "string \<Rightarrow> nat \<Rightarrow> string \<Rightarrow> nat option" where
  "find_in needle off [] = (if needle = [] then Some off else None)"
| "find_in needle off (c # s) =
     (if starts_with (c # s) needle then Some off else find_in needle (Suc off) s)"

definition sv_find :: "string \<Rightarrow> string \<Rightarrow> nat \<Rightarrow> nat option" where
  "sv_find str needle pos = (if length str < pos then None else find_in needle pos (drop pos str))"

text \<open>\<^verbatim>\<open>ltrim\<close> (AtResponse.cpp, lines 78-87): drop the leading bytes that are at most 0x20.\<close>

fun ltrim :: "string \<Rightarrow> string" where
  "ltrim [] = []"
| "ltrim (c # s) = (if char_int c \<le> 0x20 then ltrim s else c # s)"

section \<open>The field parser (Parser.h and its implementation)\<close>

text \<open>
  The C++ \<^verbatim>\<open>Parser\<close> holds three pointers into one buffer.  A live parser is the record
  below: \<open>pos\<close> is \<^verbatim>\<open>mBegin - mImmutableBegin\<close> and \<open>rest\<close> the bytes of
  \<^verbatim>\<open>[mBegin, mEnd)\<close>.  A parser whose \<^verbatim>\<open>mBegin\<close> was set to \<^verbatim>\<open>nullptr\<close> is \<open>None\<close>; every
  operation of the source is the identity on it, which is what binding in the option
  monad does.
\<close>

record Parser =
  pos :: nat
  rest :: string

definition Parser_of :: "string \<Rightarrow> Parser" where
  "Parser_of str = \<lparr>pos = 0, rest = str\<rparr>"

definition advance :: "nat \<Rightarrow> Parser \<Rightarrow> Parser" where
  "advance n p = \<lparr>pos = pos p + n, rest = drop n (rest p)\<rparr>"

text \<open>\<^verbatim>\<open>hasMore\<close> and \<^verbatim>\<open>fullMatch\<close> of a live parser (\<^verbatim>\<open>matchSoFar\<close> is being \<open>Some\<close>).\<close>

definition hasMore :: "Parser \<Rightarrow> bool" where
  "hasMore p = (rest p \<noteq> [])"

definition fullMatch :: "Parser option \<Rightarrow> bool" where
  "fullMatch r = (case r of None \<Rightarrow> False | Some p \<Rightarrow> rest p = [])"

text \<open>\<^verbatim>\<open>Parser::skip(char c)\<close>: a blank skips every leading byte up to 0x20, any other
  character must be the next byte.\<close>

definition skip :: "char \<Rightarrow> Parser \<Rightarrow> Parser option" where
  "skip c p =
     (if c = CHR '' '' then
        Some (advance (length (takeWhile (\<lambda>x. char_int x \<le> char_int (CHR '' '')) (rest p))) p)
      else (case rest p of
              [] \<Rightarrow> None
            | x # _ \<Rightarrow> if x = c then Some (advance 1 p) else None))"

text \<open>\<^verbatim>\<open>Parser::skip(const char* s)\<close>: the loop over the input and the C string.\<close>

fun skip_loop :: "string \<Rightarrow> string \<Rightarrow> bool" where
  "skip_loop [] r = True"
| "skip_loop (c # s) [] = False"
| "skip_loop (c # s) (x # r) = (if c = x then skip_loop s r else False)"

definition skip_str :: "string \<Rightarrow> Parser \<Rightarrow> Parser option" where
  "skip_str s p = (if skip_loop s (rest p) then Some (advance (length s) p) else None)"

text \<open>
  \<^verbatim>\<open>std::from_chars\<close> for \<^verbatim>\<open>int\<close>, after the C++ standard: an optional minus sign, then
  at least one digit of the base; a value outside the 32-bit range is an error.  The
  result is the value and the number of bytes read.
\<close>

definition digit_val :: "char \<Rightarrow> nat option" where
  "digit_val c =
     (let n = (of_char c :: nat) in
      if 48 \<le> n \<and> n \<le> 57 then Some (n - 48)
      else if 97 \<le> n \<and> n \<le> 122 then Some (n - 97 + 10)
      else if 65 \<le> n \<and> n \<le> 90 then Some (n - 65 + 10)
      else None)"

definition is_digit :: "nat \<Rightarrow> char \<Rightarrow> bool" where
  "is_digit base c = (case digit_val c of None \<Rightarrow> False | Some d \<Rightarrow> d < base)"

definition digits_value :: "nat \<Rightarrow> string \<Rightarrow> int" where
  "digits_value base ds =
     foldl (\<lambda>a c. a * int base + (case digit_val c of None \<Rightarrow> 0 | Some d \<Rightarrow> int d)) 0 ds"

definition from_chars :: "string \<Rightarrow> nat \<Rightarrow> (int \<times> nat) option" where
  "from_chars s base =
     (let neg = (case s of [] \<Rightarrow> False | c # _ \<Rightarrow> c = CHR ''-'');
          body = (if neg then drop 1 s else s);
          ds = takeWhile (is_digit base) body;
          v = (if neg then - digits_value base ds else digits_value base ds)
      in if ds = [] then None
         else if v < - (2 ^ 31) \<or> 2 ^ 31 - 1 < v then None
         else Some (v, (if neg then 1 else 0) + length ds))"

text \<open>\<^verbatim>\<open>Parser::operator()(int* result, int base)\<close>.\<close>

definition get_int :: "nat \<Rightarrow> Parser \<Rightarrow> (int \<times> Parser) option" where
  "get_int base p =
     (if rest p = [] then None
      else (case from_chars (rest p) base of
              None \<Rightarrow> None
            | Some (v, n) \<Rightarrow> Some (v, advance n p)))"

text \<open>\<^verbatim>\<open>Parser::operator()(std::string_view* result, char end)\<close> and the \<^verbatim>\<open>std::string\<close>
  overload built on it: the bytes before the first \<open>end\<close>, which is consumed too.\<close>

definition get_until :: "char \<Rightarrow> Parser \<Rightarrow> (string \<times> Parser) option" where
  "get_until e p =
     (let field = takeWhile (\<lambda>c. c \<noteq> e) (rest p)
      in if length field = length (rest p) then None
         else Some (field, advance (length field + 1) p))"

text \<open>\<^verbatim>\<open>Parser::consumed\<close>.\<close>

definition consumed :: "Parser option \<Rightarrow> int" where
  "consumed r = (case r of None \<Rightarrow> - 1 | Some p \<Rightarrow> int (pos p))"

section \<open>hex2bin (hexbin.h)\<close>

definition hex2bin1 :: "char \<Rightarrow> 8 word" where
  "hex2bin1 c =
     (let n = (of_char c :: nat) in
      if 48 \<le> n \<and> n \<le> 57 then of_nat (n - 48)
      else if 97 \<le> n \<and> n \<le> 102 then of_nat (n - 97 + 10)
      else if 65 \<le> n \<and> n \<le> 70 then of_nat (n - 65 + 10)
      else 0)"

fun hex2binImpl :: "string \<Rightarrow> 8 word list" where
  "hex2binImpl (a # b # s) = (push_bit 4 (hex2bin1 a) OR hex2bin1 b) # hex2binImpl s"
| "hex2binImpl s = []"

definition hex2bin :: "string \<Rightarrow> 8 word list option" where
  "hex2bin hex = (if odd (length hex) then None else Some (hex2binImpl hex))"

section \<open>Responses (AtResponse.h)\<close>

text \<open>
  The response structs that carry an identifying tag \<^verbatim>\<open>id()\<close>.  The header under
  \<^verbatim>\<open>src/\<close> declares all of them but \<^verbatim>\<open>CLIP\<close>, \<^verbatim>\<open>CLIR\<close>, \<^verbatim>\<open>CMUT\<close> and \<^verbatim>\<open>WSOS\<close>, which
  AtResponse.cpp registers and implements.
\<close>

datatype Cmd =
    CmeError | CmsError | CPIN | CPINR | CRSM | CFUN | CREG | CEREG | CGREG | CTEC
  | COPS | WRMP | CCSS | CSQ | CLCC | CCFCU | CCWA | CGDCONT | CGCONTRDP | CGFPCCFG
  | CUSATD | CUSATP | CUSATE | CUSATT | CUSATEND | CLCK | CSIM | CGLA | CCHC
  | CLIP | CLIR | CMUT | WSOS | CSCA | CSCB | CMGS | CMGW | CMT | CDS | MBAU | CTZV

text \<open>
  Modelled from the spec: the tags of \<^verbatim>\<open>CLIP\<close>, \<^verbatim>\<open>CLIR\<close>, \<^verbatim>\<open>CMUT\<close> and \<^verbatim>\<open>WSOS\<close>.  The
  declarations of these four structs, and so their \<^verbatim>\<open>id()\<close>, are missing from the header
  under \<^verbatim>\<open>src/\<close>.  Each tag is taken to be the name of the struct, the \<^verbatim>\<open>TAG\<close> of the
  \<^verbatim>\<open>+TAG:payload\<close> lines of the wire format, as for every declared struct but \<^verbatim>\<open>CPINR\<close>;
  the \<^verbatim>\<open>FAILURE_DEBUG_PREFIX\<close> of their parsers in AtResponse.cpp agrees.
\<close>

definition CLIP_id :: string where
  "CLIP_id = ''CLIP''"

definition CLIR_id :: string where
  "CLIR_id = ''CLIR''"

definition CMUT_id :: string where
  "CMUT_id = ''CMUT''"

definition WSOS_id :: string where
  "WSOS_id = ''WSOS''"

lemmas undeclared_ids = CLIP_id_def CLIR_id_def CMUT_id_def WSOS_id_def

text \<open>
  \<^verbatim>\<open>T::id()\<close>, as each struct of AtResponse.h returns it; \<^verbatim>\<open>CPINR::id()\<close> returns
  \<^verbatim>\<open>"CPIN"\<close> (AtResponse.h, line 94).
\<close>

fun id_of :: "Cmd \<Rightarrow> string" where
  "id_of CmeError = ''CME ERROR''"
| "id_of CmsError = ''CMS ERROR''"
| "id_of CPIN = ''CPIN''"
| "id_of CPINR = ''CPIN''"
| "id_of CRSM = ''CRSM''"
| "id_of CFUN = ''CFUN''"
| "id_of CREG = ''CREG''"
| "id_of CEREG = ''CEREG''"
| "id_of CGREG = ''CGREG''"
| "id_of CTEC = ''CTEC''"
| "id_of COPS = ''COPS''"
| "id_of WRMP = ''WRMP''"
| "id_of CCSS = ''CCSS''"
| "id_of CSQ = ''CSQ''"
| "id_of CLCC = ''CLCC''"
| "id_of CCFCU = ''CCFCU''"
| "id_of CCWA = ''CCWA''"
| "id_of CGDCONT = ''CGDCONT''"
| "id_of CGCONTRDP = ''CGCONTRDP''"
| "id_of CGFPCCFG = ''CGFPCCFG''"
| "id_of CUSATD = ''CUSATD''"
| "id_of CUSATP = ''CUSATP''"
| "id_of CUSATE = ''CUSATE''"
| "id_of CUSATT = ''CUSATT''"
| "id_of CUSATEND = ''CUSATEND''"
| "id_of CLCK = ''CLCK''"
| "id_of CSIM = ''CSIM''"
| "id_of CGLA = ''CGLA''"
| "id_of CCHC = ''CCHC''"
| "id_of CLIP = CLIP_id"
| "id_of CLIR = CLIR_id"
| "id_of CMUT = CMUT_id"
| "id_of WSOS = WSOS_id"
| "id_of CSCA = ''CSCA''"
| "id_of CSCB = ''CSCB''"
| "id_of CMGS = ''CMGS''"
| "id_of CMGW = ''CMGW''"
| "id_of CMT = ''CMT''"
| "id_of CDS = ''CDS''"
| "id_of MBAU = ''MBAU''"
| "id_of CTZV = ''CTZV''"

text \<open>\<^verbatim>\<open>CPIN::State\<close>, and the fields of \<^verbatim>\<open>voice::Call\<close> that \<^verbatim>\<open>CLCC::parse\<close> sets.\<close>

datatype CPIN_State = ABSENT | NOT_READY | READY | PIN | PUK

record Call =
  state :: int
  index :: int
  toa :: int
  isMpty :: bool
  isMT :: bool
  isVoice :: bool
  number :: string

text \<open>
  \<^verbatim>\<open>AtResponse::Value\<close>, the variant: one constructor per alternative.  The structs
  whose payload parser is embedded below carry their fields; the fields of the others
  are a value of the parameter \<open>'x\<close>.  \<^verbatim>\<open>RING\<close> is constructed by AtResponse.cpp.
\<close>

datatype 'x AtResponse =
    OK | ParseError string | ERROR | RING | SmsPrompt | StdString string
  | V_CmeError 'x | V_CmsError string | V_CPIN CPIN_State | V_CPINR int int
  | V_CRSM 'x | V_CFUN 'x | V_CREG 'x | V_CEREG 'x | V_CGREG 'x | V_CTEC 'x
  | V_COPS 'x | V_WRMP 'x | V_CCSS 'x | V_CSQ 'x | V_CLCC "Call list" | V_CCFCU 'x
  | V_CCWA 'x | V_CGDCONT 'x | V_CGCONTRDP 'x | V_CGFPCCFG 'x
  | V_CUSATD 'x | V_CUSATP 'x | V_CUSATE 'x | V_CUSATT 'x | V_CUSATEND 'x
  | V_CLCK 'x | V_CSIM 'x | V_CGLA 'x | V_CCHC 'x
  | V_CLIP 'x | V_CLIR 'x | V_CMUT 'x | V_WSOS 'x
  | V_CSCA 'x | V_CSCB 'x | V_CMGS 'x | V_CMGW 'x
  | V_CMT "8 word list" int | V_CDS "8 word list" int | V_MBAU 'x | V_CTZV 'x

text \<open>\<^verbatim>\<open>AtResponsePtr\<close> is a shared pointer: \<open>None\<close> is \<^verbatim>\<open>nullptr\<close>.  \<^verbatim>\<open>ParseResult\<close> pairs the
  consumed byte count with it.\<close>

type_synonym 'x AtResponsePtr = "'x AtResponse option"
type_synonym 'x ParseResult = "int \<times> 'x AtResponsePtr"

text \<open>\<^verbatim>\<open>makeParseErrorFor<T>()\<close>.\<close>

definition makeParseErrorFor :: "Cmd \<Rightarrow> 'x AtResponse" where
  "makeParseErrorFor T = ParseError (id_of T)"

section \<open>Payload parsers (AtResponse.cpp)\<close>

text \<open>\<^verbatim>\<open>AtResponse::CmsError::parse\<close>.\<close>

definition CmsError_parse :: "string \<Rightarrow> 'x AtResponse" where
  "CmsError_parse str = V_CmsError str"

text \<open>\<^verbatim>\<open>AtResponse::CPIN::parse\<close>.\<close>

definition CPIN_parse :: "string \<Rightarrow> 'x AtResponse" where
  "CPIN_parse str =
     (if str = ''READY'' then V_CPIN READY
      else if str = ''SIM PIN'' then V_CPIN PIN
      else if str = ''SIM PUK'' then V_CPIN PUK
      else makeParseErrorFor CPIN)"

text \<open>\<^verbatim>\<open>AtResponse::CPINR::parse\<close>.\<close>

definition CPINR_parse :: "string \<Rightarrow> 'x AtResponse" where
  "CPINR_parse str =
     (case do {
             (unused, p) \<leftarrow> get_until (CHR '','') (Parser_of str);
             (remainingRetryTimes, p) \<leftarrow> get_int 10 p;
             p \<leftarrow> skip (CHR '','') p;
             (maxRetryTimes, p) \<leftarrow> get_int 10 p;
             p \<leftarrow> skip (CHR '','') p;
             Some (remainingRetryTimes, maxRetryTimes, p)
           } of
        Some (remainingRetryTimes, maxRetryTimes, p) \<Rightarrow>
          if rest p = [] then V_CPINR remainingRetryTimes maxRetryTimes
          else makeParseErrorFor CPINR
      | None \<Rightarrow> makeParseErrorFor CPINR)"

text \<open>
  \<^verbatim>\<open>AtResponse::CLCC::parse\<close>.  \<open>CLCC_line\<close> is the chain of parser calls in the condition of
  the loop body together with the \<^verbatim>\<open>voice::Call\<close> it builds; \<open>CLCC_loop\<close> is the
  \<^verbatim>\<open>while (parser.hasMore())\<close> loop, with the calls collected so far.
\<close>

definition CLCC_line :: "Parser \<Rightarrow> (Call \<times> Parser) option" where
  "CLCC_line p0 = do {
     p \<leftarrow> skip_str ''+CLCC:'' p0;
     p \<leftarrow> skip (CHR '' '') p;
     (index', p) \<leftarrow> get_int 10 p;
     p \<leftarrow> skip (CHR '','') p;
     (dir, p) \<leftarrow> get_int 10 p;
     p \<leftarrow> skip (CHR '','') p;
     (state', p) \<leftarrow> get_int 10 p;
     p \<leftarrow> skip (CHR '','') p;
     (mode, p) \<leftarrow> get_int 10 p;
     p \<leftarrow> skip (CHR '','') p;
     (mpty, p) \<leftarrow> get_int 10 p;
     p \<leftarrow> skip (CHR '','') p;
     (number', p) \<leftarrow> get_until (CHR '','') p;
     (type, p) \<leftarrow> get_int 10 p;
     p \<leftarrow> skip kCR p;
     Some (\<lparr>state = state', index = index', toa = type, isMpty = (mpty \<noteq> 0),
             isMT = (dir \<noteq> 0), isVoice = (mode = 0), number = number'\<rparr>, p)
   }"

lemma skip_rest: "skip c p = Some p' \<Longrightarrow> length (rest p') \<le> length (rest p)"
  by (auto simp: skip_def advance_def split: if_splits list.splits)

lemma skip_str_rest: "skip_str s p = Some p' \<Longrightarrow> length (rest p') \<le> length (rest p)"
  by (auto simp: skip_str_def advance_def split: if_splits)

lemma skip_loop_length: "skip_loop s r \<Longrightarrow> length s \<le> length r"
  by (induction s r rule: skip_loop.induct) (auto split: if_splits)

lemma skip_str_rest_less:
  "skip_str s p = Some p' \<Longrightarrow> s \<noteq> [] \<Longrightarrow> length (rest p') < length (rest p)"
  using skip_loop_length [of s "rest p"]
  by (cases s) (auto simp: skip_str_def advance_def split: if_splits)

lemma get_int_rest: "get_int b p = Some (v, p') \<Longrightarrow> length (rest p') \<le> length (rest p)"
  by (auto simp: get_int_def advance_def split: if_splits option.splits)

lemma get_until_rest: "get_until e p = Some (v, p') \<Longrightarrow> length (rest p') \<le> length (rest p)"
  by (auto simp: get_until_def advance_def Let_def split: if_splits)

lemma CLCC_line_rest:
  assumes "CLCC_line p = Some (c, p')"
  shows "length (rest p') < length (rest p)"
proof -
  from assms obtain p1 where p1: "skip_str ''+CLCC:'' p = Some p1"
    by (auto simp: CLCC_line_def split: bind_splits)
  have "length (rest p1) < length (rest p)"
    using skip_str_rest_less [OF p1] by simp
  moreover from assms p1 have "length (rest p') \<le> length (rest p1)"
    by (auto simp: CLCC_line_def split: bind_splits
             dest!: skip_rest get_int_rest get_until_rest)
  ultimately show ?thesis by simp
qed

function CLCC_loop :: "Parser \<Rightarrow> Call list \<Rightarrow> 'x AtResponse" where
  "CLCC_loop p calls =
     (if hasMore p then
        (case CLCC_line p of
           Some (call, p') \<Rightarrow> CLCC_loop p' (calls @ [call])
         | None \<Rightarrow> makeParseErrorFor CLCC)
      else V_CLCC calls)"
  by pat_completeness auto
termination
  by (relation "measure (\<lambda>(p, calls). length (rest p))") (auto dest: CLCC_line_rest)

definition CLCC_parse :: "string \<Rightarrow> 'x AtResponse" where
  "CLCC_parse str = CLCC_loop (Parser_of str) []"

text \<open>
  \<^verbatim>\<open>AtResponse::CMT::parse\<close> and \<^verbatim>\<open>AtResponse::CDS::parse\<close>: a number and a carriage
  return, then a line of hex digits.  They return their own consumed count.
\<close>

definition CMT_parse :: "string \<Rightarrow> 'x ParseResult" where
  "CMT_parse str =
     (case do { (something, p) \<leftarrow> get_int 10 (Parser_of str);
                p \<leftarrow> skip kCR p;
                Some (something, p) } of
        Some (something, p) \<Rightarrow>
          (case get_until kCR p of
             Some (strPdu, p') \<Rightarrow>
               (case hex2bin strPdu of
                  Some pdu \<Rightarrow> (consumed (Some p'), Some (V_CMT pdu something))
                | None \<Rightarrow> (- 1, Some (makeParseErrorFor CMT)))
           | None \<Rightarrow> (0, None))
      | None \<Rightarrow> (- 1, Some (makeParseErrorFor CMT)))"

definition CDS_parse :: "string \<Rightarrow> 'x ParseResult" where
  "CDS_parse str =
     (case do { (pduSize, p) \<leftarrow> get_int 10 (Parser_of str);
                p \<leftarrow> skip kCR p;
                Some (pduSize, p) } of
        Some (pduSize, p) \<Rightarrow>
          (case get_until kCR p of
             Some (strPdu, p') \<Rightarrow>
               (case hex2bin strPdu of
                  Some pdu \<Rightarrow> (consumed (Some p'), Some (V_CDS pdu pduSize))
                | None \<Rightarrow> (- 1, Some (makeParseErrorFor CDS)))
           | None \<Rightarrow> (0, None))
      | None \<Rightarrow> (- 1, Some (makeParseErrorFor CDS)))"

section \<open>The line parser (AtResponse.cpp, parseCmds and AtResponse::parse)\<close>

text \<open>An entry of the registry: the tag, the payload parser and the multi-line flag.\<close>

record 'x ValueParser =
  cmd :: string
  parse :: "string \<Rightarrow> 'x AtResponse"
  multiline :: bool

text \<open>
  \<^verbatim>\<open>parseCmds\<close>.  \<open>str1\<close> is \<^verbatim>\<open>str.substr(1)\<close>; the list is the range \<^verbatim>\<open>[vp, vpEnd)\<close> still to
  visit and the flag is \<^verbatim>\<open>maybeIncomplete\<close>.  A matching entry decides the result: the
  payload ends at \<^verbatim>\<open>"\rOK\r"\<close> for a multi-line entry and at the next carriage return
  otherwise, and without that end the result is \<open>(0, None)\<close>.  The byte counts are
  unbounded integers here: the conversion of \<^verbatim>\<open>size_t\<close> to \<^verbatim>\<open>int\<close> is exact for the
  buffers of the reader, which stay far below \<open>2^31\<close> bytes.
\<close>

fun parseCmds_loop ::
  "string \<Rightarrow> string \<Rightarrow> 'x ValueParser list \<Rightarrow> bool \<Rightarrow> 'x ParseResult" where
  "parseCmds_loop str str1 [] maybeIncomplete =
     (if maybeIncomplete then (0, None) else (- 1, None))"
| "parseCmds_loop str str1 (vp # vps) maybeIncomplete =
     (if starts_with str1 (cmd vp) then
        (if length str1 \<le> length (cmd vp) then parseCmds_loop str str1 vps True
         else
           (case (if str1 ! length (cmd vp) = CHR '':'' then Some (1 + length (cmd vp) + 1)
                  else if str1 ! length (cmd vp) = kCR then Some (1 + length (cmd vp))
                  else None) of
              None \<Rightarrow> parseCmds_loop str str1 vps maybeIncomplete
            | Some skipSize \<Rightarrow>
                (if multiline vp then
                   (case sv_find str krOKr skipSize of
                      Some payloadEnd \<Rightarrow>
                        (int (payloadEnd + length krOKr),
                         Some (parse vp (take (payloadEnd + 1) str)))
                    | None \<Rightarrow> (0, None))
                 else
                   (case sv_find str [kCR] skipSize of
                      Some payloadEnd \<Rightarrow>
                        (int (payloadEnd + 1),
                         Some (parse vp (ltrim (take (payloadEnd - skipSize) (drop skipSize str)))))
                    | None \<Rightarrow> (0, None)))))
      else parseCmds_loop str str1 vps maybeIncomplete)"

definition parseCmds :: "string \<Rightarrow> 'x ValueParser list \<Rightarrow> 'x ParseResult" where
  "parseCmds str vps = parseCmds_loop str (drop 1 str) vps False"

text \<open>
  The three registries of \<^verbatim>\<open>AtResponse::parse\<close>.  The macro \<^verbatim>\<open>CMD(C)\<close> expands to the tag
  and the address of the payload parser of \<open>C\<close>; \<open>parsers\<close> gives the payload parser of
  each struct.
\<close>

definition CMD :: "(Cmd \<Rightarrow> string \<Rightarrow> 'x AtResponse) \<Rightarrow> Cmd \<Rightarrow> bool \<Rightarrow> 'x ValueParser" where
  "CMD parsers C m = \<lparr>cmd = id_of C, parse = parsers C, multiline = m\<rparr>"

definition plusValueParsers :: "(Cmd \<Rightarrow> string \<Rightarrow> 'x AtResponse) \<Rightarrow> 'x ValueParser list" where
  "plusValueParsers parsers =
     [CMD parsers CPIN False, CMD parsers CPINR False, CMD parsers CRSM False,
      CMD parsers CFUN False, CMD parsers CREG False, CMD parsers CEREG False,
      CMD parsers CGREG False, CMD parsers CTEC False, CMD parsers COPS True,
      CMD parsers WRMP False, CMD parsers CCSS False, CMD parsers CSQ False,
      CMD parsers CLCC True, CMD parsers CCFCU True, CMD parsers CCWA False,
      CMD parsers CUSATD False, CMD parsers CUSATP False, CMD parsers CUSATE False,
      CMD parsers CUSATT False, CMD parsers CUSATEND False, CMD parsers CGDCONT True,
      CMD parsers CGCONTRDP False, CMD parsers CLCK False, CMD parsers CSIM False,
      CMD parsers CCHC False, CMD parsers CLIP False, CMD parsers CLIR False,
      CMD parsers CMUT False, CMD parsers WSOS False, CMD parsers CSCA False,
      CMD parsers CSCB False, CMD parsers CMGS False, CMD parsers CMGW False,
      CMD parsers CmeError False, CMD parsers CmsError False]"

definition percentValueParsers :: "(Cmd \<Rightarrow> string \<Rightarrow> 'x AtResponse) \<Rightarrow> 'x ValueParser list" where
  "percentValueParsers parsers = [CMD parsers CTZV False, CMD parsers CGFPCCFG False]"

definition caretValueParsers :: "(Cmd \<Rightarrow> string \<Rightarrow> 'x AtResponse) \<Rightarrow> 'x ValueParser list" where
  "caretValueParsers parsers = [CMD parsers MBAU False]"

text \<open>
  \<^verbatim>\<open>AtResponse::parse\<close>, over the payload parsers.  \<^verbatim>\<open>str.front()\<close> of an empty view is
  outside the contract of \<^verbatim>\<open>std::string_view\<close> (the reader never passes one): the
  result is \<open>None\<close> there.
\<close>

definition parse_with ::
  "(Cmd \<Rightarrow> string \<Rightarrow> 'x AtResponse) \<Rightarrow> string \<Rightarrow> 'x ParseResult option" where
  "parse_with parsers str =
     (if starts_with str (''RING'' @ [kCR]) then Some (int (length (''RING'' @ [kCR])), Some RING)
      else if starts_with str ''+CMT:'' then
        (let trimmed = ltrim (drop (length ''+CMT:'') str);
             (consumed', response) = CMT_parse trimmed
         in if consumed' > 0
            then Some (consumed' + int (length str) - int (length trimmed), response)
            else Some (consumed', None))
      else if starts_with str ''+CDS:'' then
        (let trimmed = ltrim (drop (length ''+CDS:'') str);
             (consumed', response) = CDS_parse trimmed
         in if consumed' > 0
            then Some (consumed' + int (length str) - int (length trimmed), response)
            else Some (consumed', None))
      else
        (case str of
           [] \<Rightarrow> None
         | front # _ \<Rightarrow>
             if front = CHR ''+'' then Some (parseCmds str (plusValueParsers parsers))
             else if front = CHR ''%'' then Some (parseCmds str (percentValueParsers parsers))
             else if front = CHR ''^'' then Some (parseCmds str (caretValueParsers parsers))
             else if starts_with str (''> '' @ [kCR])
               then Some (int (length (''> '' @ [kCR])), Some SmsPrompt)
             else if starts_with str (''OK'' @ [kCR])
               then Some (int (length (''OK'' @ [kCR])), Some OK)
             else if starts_with str (''ERROR'' @ [kCR])
               then Some (int (length (''ERROR'' @ [kCR])), Some ERROR)
             else
               (case sv_find str krOKr 0 of
                  Some pos' \<Rightarrow> Some (int (pos' + length krOKr), Some (StdString (take pos' str)))
                | None \<Rightarrow> Some (0, None))))"

text \<open>
  The payload parsers of the source: those embedded above, and \<open>ext\<close> for the structs
  whose fields this development leaves opaque.  (\<^verbatim>\<open>CMT\<close> and \<^verbatim>\<open>CDS\<close> are in no registry;
  \<^verbatim>\<open>AtResponse::parse\<close> calls their parsers directly.)
\<close>

definition payload_parsers ::
  "(Cmd \<Rightarrow> string \<Rightarrow> 'x AtResponse) \<Rightarrow> Cmd \<Rightarrow> string \<Rightarrow> 'x AtResponse" where
  "payload_parsers ext C =
     (if C = CPIN then CPIN_parse
      else if C = CPINR then CPINR_parse
      else if C = CLCC then CLCC_parse
      else if C = CmsError then CmsError_parse
      else ext C)"

definition AtResponse_parse ::
  "(Cmd \<Rightarrow> string \<Rightarrow> 'x AtResponse) \<Rightarrow> string \<Rightarrow> 'x ParseResult option" where
  "AtResponse_parse ext str = parse_with (payload_parsers ext) str"

section \<open>Queries on a response (AtResponse.h)\<close>

text \<open>The struct, among those with a tag, that is the active alternative of the variant;
  \<open>None\<close> for \<^verbatim>\<open>OK\<close>, \<^verbatim>\<open>ParseError\<close>, \<^verbatim>\<open>ERROR\<close>, \<^verbatim>\<open>RING\<close>, \<^verbatim>\<open>SmsPrompt\<close> and \<^verbatim>\<open>std::string\<close>.\<close>

fun alternative :: "'x AtResponse \<Rightarrow> Cmd option" where
  "alternative (V_CmeError _) = Some CmeError"
| "alternative (V_CmsError _) = Some CmsError"
| "alternative (V_CPIN _) = Some CPIN"
| "alternative (V_CPINR _ _) = Some CPINR"
| "alternative (V_CRSM _) = Some CRSM"
| "alternative (V_CFUN _) = Some CFUN"
| "alternative (V_CREG _) = Some CREG"
| "alternative (V_CEREG _) = Some CEREG"
| "alternative (V_CGREG _) = Some CGREG"
| "alternative (V_CTEC _) = Some CTEC"
| "alternative (V_COPS _) = Some COPS"
| "alternative (V_WRMP _) = Some WRMP"
| "alternative (V_CCSS _) = Some CCSS"
| "alternative (V_CSQ _) = Some CSQ"
| "alternative (V_CLCC _) = Some CLCC"
| "alternative (V_CCFCU _) = Some CCFCU"
| "alternative (V_CCWA _) = Some CCWA"
| "alternative (V_CGDCONT _) = Some CGDCONT"
| "alternative (V_CGCONTRDP _) = Some CGCONTRDP"
| "alternative (V_CGFPCCFG _) = Some CGFPCCFG"
| "alternative (V_CUSATD _) = Some CUSATD"
| "alternative (V_CUSATP _) = Some CUSATP"
| "alternative (V_CUSATE _) = Some CUSATE"
| "alternative (V_CUSATT _) = Some CUSATT"
| "alternative (V_CUSATEND _) = Some CUSATEND"
| "alternative (V_CLCK _) = Some CLCK"
| "alternative (V_CSIM _) = Some CSIM"
| "alternative (V_CGLA _) = Some CGLA"
| "alternative (V_CCHC _) = Some CCHC"
| "alternative (V_CLIP _) = Some CLIP"
| "alternative (V_CLIR _) = Some CLIR"
| "alternative (V_CMUT _) = Some CMUT"
| "alternative (V_WSOS _) = Some WSOS"
| "alternative (V_CSCA _) = Some CSCA"
| "alternative (V_CSCB _) = Some CSCB"
| "alternative (V_CMGS _) = Some CMGS"
| "alternative (V_CMGW _) = Some CMGW"
| "alternative (V_CMT _ _) = Some CMT"
| "alternative (V_CDS _ _) = Some CDS"
| "alternative (V_MBAU _) = Some MBAU"
| "alternative (V_CTZV _) = Some CTZV"
| "alternative OK = None"
| "alternative (ParseError _) = None"
| "alternative ERROR = None"
| "alternative RING = None"
| "alternative SmsPrompt = None"
| "alternative (StdString _) = None"

text \<open>\<^verbatim>\<open>std::holds_alternative<T>(value)\<close> for a struct \<open>T\<close> with a tag.\<close>

definition holds_alternative :: "Cmd \<Rightarrow> 'x AtResponse \<Rightarrow> bool" where
  "holds_alternative T r = (alternative r = Some T)"

text \<open>\<^verbatim>\<open>isOK\<close>, \<^verbatim>\<open>isERROR\<close> and \<^verbatim>\<open>isParseError\<close>.\<close>

definition isOK :: "'x AtResponse \<Rightarrow> bool" where
  "isOK r = (case r of OK \<Rightarrow> True | _ \<Rightarrow> False)"

definition isERROR :: "'x AtResponse \<Rightarrow> bool" where
  "isERROR r = (case r of ERROR \<Rightarrow> True | _ \<Rightarrow> False)"

definition isParseError :: "'x AtResponse \<Rightarrow> bool" where
  "isParseError r = (case r of ParseError _ \<Rightarrow> True | _ \<Rightarrow> False)"

text \<open>The template \<^verbatim>\<open>holds<T>()\<close>, which needs \<^verbatim>\<open>T::id()\<close>, and its three
  specialisations for \<^verbatim>\<open>OK\<close>, \<^verbatim>\<open>SmsPrompt\<close> and \<^verbatim>\<open>std::string\<close>.\<close>

definition holds :: "Cmd \<Rightarrow> 'x AtResponse \<Rightarrow> bool" where
  "holds T r =
     (if holds_alternative T r then True
      else (case r of ParseError cmd' \<Rightarrow> cmd' = id_of T | _ \<Rightarrow> False))"

definition holds_OK :: "'x AtResponse \<Rightarrow> bool" where
  "holds_OK r = (case r of OK \<Rightarrow> True | _ \<Rightarrow> False)"

definition holds_SmsPrompt :: "'x AtResponse \<Rightarrow> bool" where
  "holds_SmsPrompt r = (case r of SmsPrompt \<Rightarrow> True | _ \<Rightarrow> False)"

definition holds_string :: "'x AtResponse \<Rightarrow> bool" where
  "holds_string r = (case r of StdString _ \<Rightarrow> True | _ \<Rightarrow> False)"

section \<open>The identifier allocator (IdAllocator.h and its implementation)\<close>

text \<open>
  An identifier is an \<^verbatim>\<open>int32_t\<close>: a 32-bit word, read as a signed number by \<open>sint\<close>.
  \<^verbatim>\<open>mReturnedIds\<close> is a \<^verbatim>\<open>std::set<int32_t, std::greater<int32_t>>\<close>: its elements in
  iteration order are a list that descends strictly in the signed order, \<^verbatim>\<open>begin()\<close> is
  the head (the greatest) and \<^verbatim>\<open>rbegin()\<close> the last element (the least).  The increment
  and the decrement of \<^verbatim>\<open>mIdGenerator\<close> are those of the word: at \<open>2^31 - 1\<close> the increment
  wraps to \<open>- 2^31\<close> and at \<open>- 2^31\<close> the decrement wraps to \<open>2^31 - 1\<close>, as the compiled code
  does where C++ leaves the signed overflow undefined.
\<close>

record IdAllocator =
  mReturnedIds :: "32 word list"
  mIdGenerator :: "32 word"

definition IdAllocator_new :: IdAllocator where
  "IdAllocator_new = \<lparr>mReturnedIds = [], mIdGenerator = 0\<rparr>"

text \<open>\<^verbatim>\<open>std::set::insert\<close> under \<^verbatim>\<open>std::greater<int32_t>\<close>, the comparison of the signed
  values.\<close>

fun set_insert :: "32 word \<Rightarrow> 32 word list \<Rightarrow> 32 word list" where
  "set_insert x [] = [x]"
| "set_insert x (y # ys) =
     (if x = y then y # ys else if sint y < sint x then x # y # ys else y # set_insert x ys)"

text \<open>\<^verbatim>\<open>IdAllocator::get\<close>: the identifier and the allocator after the call.\<close>

definition IdAllocator_get :: "IdAllocator \<Rightarrow> 32 word \<times> IdAllocator" where
  "IdAllocator_get a =
     (if mReturnedIds a = [] then (mIdGenerator a + 1, a\<lparr>mIdGenerator := mIdGenerator a + 1\<rparr>)
      else (last (mReturnedIds a), a\<lparr>mReturnedIds := butlast (mReturnedIds a)\<rparr>))"

text \<open>\<^verbatim>\<open>IdAllocator::put\<close>; \<open>put_loop\<close> is its \<^verbatim>\<open>while\<close> loop from \<^verbatim>\<open>begin()\<close>, over the
  elements not yet erased and the counter.\<close>

fun put_loop :: "32 word list \<Rightarrow> 32 word \<Rightarrow> 32 word list \<times> 32 word" where
  "put_loop [] g = ([], g)"
| "put_loop (x # xs) g = (if x = g then put_loop xs (g - 1) else (x # xs, g))"

definition IdAllocator_put :: "IdAllocator \<Rightarrow> 32 word \<Rightarrow> IdAllocator" where
  "IdAllocator_put a id' =
     (if id' = mIdGenerator a then
        (let (ids, g) = put_loop (mReturnedIds a) (mIdGenerator a - 1)
         in \<lparr>mReturnedIds = ids, mIdGenerator = g\<rparr>)
      else a\<lparr>mReturnedIds := set_insert id' (mReturnedIds a)\<rparr>)"

text \<open>A sequence of operations on an allocator, from left to right.\<close>

datatype IdOp = Get | Put "32 word"

fun run_ops :: "IdAllocator \<Rightarrow> IdOp list \<Rightarrow> IdAllocator" where
  "run_ops a [] = a"
| "run_ops a (Get # ops) = run_ops (snd (IdAllocator_get a)) ops"
| "run_ops a (Put i # ops) = run_ops (IdAllocator_put a i) ops"

section \<open>The conversation (AtChannel.h, AtChannel.cpp)\<close>

text \<open>
  \<^verbatim>\<open>mFilter\<close> is a pointer to the predicate of the armed request, \<open>None\<close> when it is
  \<^verbatim>\<open>nullptr\<close>.  \<^verbatim>\<open>mSink\<close> is a \<^verbatim>\<open>std::promise\<close>: \<open>None\<close> while no value is set, \<open>Some v\<close> once
  \<^verbatim>\<open>set_value(v)\<close> was called.  Setting a value twice throws \<^verbatim>\<open>std::future_error\<close>.  Every
  access to the two fields is under \<^verbatim>\<open>mMtx\<close>, so each function below is one atomic step.
\<close>

datatype error = promise_already_satisfied

record 'x Conversation =
  mFilter :: "('x AtResponse \<Rightarrow> bool) option"
  mSink :: "'x AtResponsePtr option"

definition Conversation_new :: "'x Conversation" where
  "Conversation_new = \<lparr>mFilter = None, mSink = None\<rparr>"

text \<open>\<^verbatim>\<open>AtChannel::Conversation::send\<close>, called by the reader with a non-null response.\<close>

definition Conversation_send ::
  "'x Conversation \<Rightarrow> 'x AtResponse \<Rightarrow> error + (bool \<times> 'x Conversation)" where
  "Conversation_send conv response =
     (case mFilter conv of
        Some filter' \<Rightarrow>
          if filter' response then
            (case mSink conv of
               None \<Rightarrow> Inr (True, conv\<lparr>mFilter := None, mSink := Some (Some response)\<rparr>)
             | Some _ \<Rightarrow> Inl promise_already_satisfied)
          else Inr (False, conv)
      | None \<Rightarrow> Inr (False, conv))"

text \<open>The first critical section of \<^verbatim>\<open>operator()\<close>: the request is armed with its predicate
  and a fresh promise.\<close>

definition Conversation_arm ::
  "'x Conversation \<Rightarrow> ('x AtResponse \<Rightarrow> bool) \<Rightarrow> 'x Conversation" where
  "Conversation_arm conv filter' = conv\<lparr>mFilter := Some filter', mSink := None\<rparr>"

text \<open>The reader delivering one response after the other: the answers of \<^verbatim>\<open>send\<close>.\<close>

fun deliver ::
  "'x Conversation \<Rightarrow> 'x AtResponse list \<Rightarrow> error + (bool list \<times> 'x Conversation)" where
  "deliver conv [] = Inr ([], conv)"
| "deliver conv (r # rs) =
     (case Conversation_send conv r of
        Inl e \<Rightarrow> Inl e
      | Inr (claimed, conv') \<Rightarrow>
          (case deliver conv' rs of
             Inl e \<Rightarrow> Inl e
           | Inr (bs, conv'') \<Rightarrow> Inr (claimed # bs, conv'')))"

text \<open>
  \<^verbatim>\<open>AtChannel::Conversation::operator()\<close>.  The request worker runs it while the reader
  delivers responses; the three lists are the responses that the reader passes to
  \<^verbatim>\<open>send\<close> between the arming and the end of the transmission (\<open>before\<close>), during
  \<^verbatim>\<open>wait_for\<close> until the timeout (\<open>within\<close>), and between the expiry of the timeout and
  the disarming (\<open>late\<close>).  \<open>requestPipe\<close> tells whether the transmission of a request
  succeeds.  The result is the response returned, the conversation afterwards and the
  observable actions in their order.
\<close>

datatype action = Write string | WaitFor nat | LogTimeout string

definition Conversation_call ::
  "'x Conversation \<Rightarrow> (string \<Rightarrow> bool) \<Rightarrow> string \<Rightarrow> ('x AtResponse \<Rightarrow> bool) \<Rightarrow> nat \<Rightarrow>
   'x AtResponse list \<Rightarrow> 'x AtResponse list \<Rightarrow> 'x AtResponse list \<Rightarrow>
   error + ('x AtResponsePtr \<times> 'x Conversation \<times> action list)" where
  "Conversation_call conv requestPipe request filter' timeout before within late =
     (case deliver (Conversation_arm conv filter') before of
        Inl e \<Rightarrow> Inl e
      | Inr (_, c1) \<Rightarrow>
          if \<not> requestPipe request then Inr (None, c1\<lparr>mFilter := None\<rparr>, [Write request])
          else
            (case deliver c1 within of
               Inl e \<Rightarrow> Inl e
             | Inr (_, c2) \<Rightarrow>
                 (case mSink c2 of
                    Some response \<Rightarrow> Inr (response, c2, [Write request, WaitFor timeout])
                  | None \<Rightarrow>
                      (case deliver c2 late of
                         Inl e \<Rightarrow> Inl e
                       | Inr (_, c3) \<Rightarrow>
                           Inr (None, c3\<lparr>mFilter := None\<rparr>,
                                [Write request, WaitFor timeout, LogTimeout request])))))"

section \<open>The channel: broadcasting a response (AtChannel.cpp)\<close>

text \<open>
  A subscriber is a \<^verbatim>\<open>ResponseSink\<close>, a function object that answers whether it stays
  subscribed; \<open>sink_id\<close> names it, so that the calls can be told apart.  The state of
  the channel that \<^verbatim>\<open>broadcastResponse\<close> touches is the conversation and the subscribers.
\<close>

record 'x ResponseSink =
  sink_id :: nat
  sink_call :: "'x AtResponse \<Rightarrow> bool"

record 'x AtChannel =
  mConversation :: "'x Conversation"
  mResponseSinks :: "'x ResponseSink list"

text \<open>\<^verbatim>\<open>std::remove_if\<close> with \<^verbatim>\<open>erase\<close>: the predicate is applied once to each element, in
  order.  The result is the subscribers kept and the calls made.\<close>

fun remove_detached ::
  "'x ResponseSink list \<Rightarrow> 'x AtResponse \<Rightarrow> 'x ResponseSink list \<times> (nat \<times> 'x AtResponse) list" where
  "remove_detached [] response = ([], [])"
| "remove_detached (s # ss) response =
     (let stays = sink_call s response;
          (kept, calls) = remove_detached ss response
      in (if stays then s # kept else kept, (sink_id s, response) # calls))"

text \<open>\<^verbatim>\<open>AtChannel::broadcastResponse\<close>: the answer of \<^verbatim>\<open>mConversation.send\<close> is dropped.\<close>

definition broadcastResponse ::
  "'x AtChannel \<Rightarrow> 'x AtResponse \<Rightarrow> error + ('x AtChannel \<times> (nat \<times> 'x AtResponse) list)" where
  "broadcastResponse ch response =
     (case Conversation_send (mConversation ch) response of
        Inl e \<Rightarrow> Inl e
      | Inr (_, conv') \<Rightarrow>
          (let (kept, calls) = remove_detached (mResponseSinks ch) response
           in Inr (ch\<lparr>mConversation := conv', mResponseSinks := kept\<rparr>, calls)))"

section \<open>Notions used in the statements\<close>

text \<open>
  A predicate is armed and the response satisfies it: the condition of \<^verbatim>\<open>send\<close>, that
  \<^verbatim>\<open>mFilter\<close> is not null and the predicate it points to accepts the response.
\<close>

definition satisfies :: "'x Conversation \<Rightarrow> 'x AtResponse \<Rightarrow> bool" where
  "satisfies conv r = (case mFilter conv of None \<Rightarrow> False | Some f \<Rightarrow> f r)"

text \<open>
  The states a conversation can be in: a predicate is armed only together with a promise
  that has no value yet.  A new conversation is in such a state, arming leads to one, and
  so do \<^verbatim>\<open>send\<close> and the disarming (lemmas \<open>Conversation_inv_new\<close>, \<open>Conversation_inv_arm\<close>,
  \<open>Conversation_inv_send\<close>, \<open>Conversation_inv_disarm\<close>).
\<close>

definition Conversation_inv :: "'x Conversation \<Rightarrow> bool" where
  "Conversation_inv conv = (mFilter conv = None \<or> mSink conv = None)"

text \<open>The order in which the \<^verbatim>\<open>std::set\<close> of the allocator keeps its elements: strictly
  descending signed values.\<close>

definition descending :: "32 word list \<Rightarrow> bool" where
  "descending xs = sorted_wrt (\<lambda>x y. sint y < sint x) xs"



text \<open>
  An instance of the opaque payload parsers, for closed examples: each of them rejects
  its payload, as every payload parser of the source may.
\<close>

definition reject_all :: "Cmd \<Rightarrow> string \<Rightarrow> unit AtResponse" where
  "reject_all C payload = makeParseErrorFor C"

text \<open>The example line of a \<^verbatim>\<open>+CLCC\<close> reply, \<^verbatim>\<open>+CLCC: 1,0,0,0,0,"12345",129\r\<close>.\<close>

abbreviation clcc_line :: string where
  "clcc_line \<equiv> ''+CLCC: 1,0,0,0,0,'' @ [CHR 0x22] @ ''12345'' @ [CHR 0x22] @ '',129'' @ [kCR]"

section \<open>Properties of the line parser\<close>

lemmas parse_defs =
  AtResponse_parse_def parse_with_def starts_with_def parseCmds_def plusValueParsers_def
  percentValueParsers_def caretValueParsers_def CMD_def sv_find_def krOKr_def
  payload_parsers_def char_int_def undeclared_ids

lemmas Parser_defs =
  Parser_of_def advance_def hasMore_def skip_def skip_str_def get_int_def get_until_def
  from_chars_def is_digit_def digit_val_def digits_value_def

subsection \<open>\<^verbatim>\<open>find\<close> returns the first occurrence\<close>










subsection \<open>Multi-line tags\<close>

text \<open>The entries registered with the multi-line flag are those of COPS, CLCC, CCFCU and
  CGDCONT, all in the \<open>+\<close> registry.\<close>

lemma multiline_tags:
  "map cmd (filter multiline
     (plusValueParsers ps @ percentValueParsers ps @ caretValueParsers ps)) =
   [id_of COPS, id_of CLCC, id_of CCFCU, id_of CGDCONT]"
  by (simp add: plusValueParsers_def percentValueParsers_def caretValueParsers_def CMD_def)





subsection \<open>Example inputs\<close>

text \<open>
  C8.  \<^verbatim>\<open>AtResponse::parse("OK\r")\<close> returns consumed = 3 and the OK variant;
  \<^verbatim>\<open>AtResponse::parse("+CPIN: READY\r")\<close> returns consumed = 13 and the CPIN variant with
  state READY.
\<close>

theorem C8_examples:
  "AtResponse_parse ext (''OK'' @ [kCR]) = Some (3, Some OK) \<and>
   AtResponse_parse ext (''+CPIN: READY'' @ [kCR]) = Some (13, Some (V_CPIN READY))"
  by (simp add: parse_defs CPIN_parse_def)

text \<open>
  C1.  The input \<^verbatim>\<open>+NOTREAL:x\r\<close> is a terminal failure, \<open>(-1, nullptr)\<close>.  Of the strict
  prefixes of \<^verbatim>\<open>+CSQ:1,2\r\<close>, those of four bytes and more are incomplete, \<open>(0, nullptr)\<close>;
  the three that end inside the tag (\<^verbatim>\<open>+\<close>, \<^verbatim>\<open>+C\<close>, \<^verbatim>\<open>+CS\<close>) are terminal failures:
  \<^verbatim>\<open>parseCmds\<close> sets \<^verbatim>\<open>maybeIncomplete\<close> only when the input holds a whole tag, so an
  input cut inside every tag reaches the final \<open>-1\<close>.
\<close>

theorem C1_truncated_tag_is_terminal:
  "AtResponse_parse ext (''+NOTREAL:x'' @ [kCR]) = Some (- 1, None) \<and>
   AtResponse_parse ext ''+'' = Some (- 1, None) \<and>
   AtResponse_parse ext ''+C'' = Some (- 1, None) \<and>
   AtResponse_parse ext ''+CS'' = Some (- 1, None) \<and>
   AtResponse_parse ext ''+CSQ'' = Some (0, None) \<and>
   AtResponse_parse ext ''+CSQ:'' = Some (0, None) \<and>
   AtResponse_parse ext ''+CSQ:1'' = Some (0, None) \<and>
   AtResponse_parse ext ''+CSQ:1,'' = Some (0, None) \<and>
   AtResponse_parse ext ''+CSQ:1,2'' = Some (0, None) \<and>
   AtResponse_parse ext (''+CSQ:1,2'' @ [kCR]) = Some (9, Some (ext CSQ ''1,2''))"
  by (simp add: parse_defs)

text \<open>The payload parser of CLCC on the example line: one call, whose number is the text
  between the commas.\<close>

lemma CLCC_parse_clcc_line:
  "(CLCC_parse clcc_line :: 'x AtResponse) =
     V_CLCC [\<lparr>state = 0, index = 1, toa = 129, isMpty = False, isMT = False, isVoice = True,
              number = [CHR 0x22] @ ''12345'' @ [CHR 0x22]\<rparr>]"
  by (simp add: CLCC_parse_def CLCC_line_def Parser_defs char_int_def)

text \<open>
  C3, as the code has it.  CLCC is a multi-line entry: the line
  \<^verbatim>\<open>+CLCC: 1,0,0,0,0,"12345",129\r\<close> alone is incomplete, \<open>(0, nullptr)\<close>.  Followed by
  \<^verbatim>\<open>OK\r\<close> it is parsed, 32 bytes consumed, into a CLCC response with exactly one call,
  with index 1, state 0, isMT false, isVoice true and toa 129.  Cut after
  \<^verbatim>\<open>+CLCC: 1,0,0,0,0,"\<close> the input is incomplete.
\<close>

theorem C3_clcc_needs_terminator:
  fixes ext :: "Cmd \<Rightarrow> string \<Rightarrow> 'x AtResponse"
  shows "AtResponse_parse ext clcc_line = Some (0, None) \<and>
   (case AtResponse_parse ext (clcc_line @ ''OK'' @ [kCR]) of
      Some (n, Some (V_CLCC [c])) \<Rightarrow>
        n = 32 \<and> index c = 1 \<and> state c = 0 \<and> \<not> isMT c \<and> isVoice c \<and> toa c = 129
    | _ \<Rightarrow> False) \<and>
   AtResponse_parse ext (''+CLCC: 1,0,0,0,0,'' @ [CHR 0x22]) = Some (0, None)"
proof -
  have "AtResponse_parse ext clcc_line = Some (0, None)"
    by (simp add: parse_defs)
  moreover have "AtResponse_parse ext (clcc_line @ ''OK'' @ [kCR]) =
      Some (32, Some (CLCC_parse clcc_line))"
    by (simp add: parse_defs)
  moreover have "AtResponse_parse ext (''+CLCC: 1,0,0,0,0,'' @ [CHR 0x22]) = Some (0, None)"
    by (simp add: parse_defs)
  ultimately show ?thesis
    using CLCC_parse_clcc_line [where ?'x = 'x] by simp
qed

text \<open>
  The claim C3 as the specification states it fails: the example line is not parsed
  without the terminator, and with it the number keeps its quotation marks.
\<close>

theorem C3_counterexample:
  "AtResponse_parse reject_all clcc_line = Some (0, None) \<and>
   AtResponse_parse reject_all (clcc_line @ ''OK'' @ [kCR]) =
     Some (32, Some (V_CLCC [\<lparr>state = 0, index = 1, toa = 129, isMpty = False, isMT = False,
        isVoice = True, number = [CHR 0x22] @ ''12345'' @ [CHR 0x22]\<rparr>]))"
proof -
  have "AtResponse_parse reject_all clcc_line = Some (0, None)"
    by (simp add: parse_defs)
  moreover have "AtResponse_parse reject_all (clcc_line @ ''OK'' @ [kCR]) =
      Some (32, Some (CLCC_parse clcc_line))"
    by (simp add: parse_defs)
  ultimately show ?thesis
    using CLCC_parse_clcc_line [where ?'x = unit] by simp
qed

subsection \<open>The CPINR entry\<close>

text \<open>Two neighbouring entries with the same tag and flag: the payload parser of the
  second one never decides the result.\<close>

lemma parseCmds_loop_shadow:
  "cmd a = cmd b \<Longrightarrow> multiline a = multiline b \<Longrightarrow>
   parseCmds_loop str str1 (a # b # vps) mi =
   parseCmds_loop str str1 (a # b\<lparr>parse := f\<rparr> # vps) mi"
  by simp

lemma parseCmds_plus_CPINR:
  "parseCmds str (plusValueParsers (ps(CPINR := f))) = parseCmds str (plusValueParsers ps)"
proof -
  let ?tail = "drop 2 (plusValueParsers ps)"
  have upd: "plusValueParsers (ps(CPINR := f)) =
      CMD ps CPIN False # (CMD ps CPINR False)\<lparr>parse := f\<rparr> # ?tail"
    by (simp add: plusValueParsers_def CMD_def)
  have orig: "plusValueParsers ps = CMD ps CPIN False # CMD ps CPINR False # ?tail"
    by (simp add: plusValueParsers_def)
  have "parseCmds_loop str (drop 1 str) (CMD ps CPIN False # CMD ps CPINR False # ?tail) False =
        parseCmds_loop str (drop 1 str)
          (CMD ps CPIN False # (CMD ps CPINR False)\<lparr>parse := f\<rparr> # ?tail) False"
    by (rule parseCmds_loop_shadow) (simp_all add: CMD_def)
  then show ?thesis
    unfolding parseCmds_def upd by (subst orig) simp
qed

lemma parse_with_CPINR: "parse_with (ps(CPINR := f)) str = parse_with ps str"
proof -
  have "percentValueParsers (ps(CPINR := f)) = percentValueParsers ps"
    by (simp add: percentValueParsers_def CMD_def)
  moreover have "caretValueParsers (ps(CPINR := f)) = caretValueParsers ps"
    by (simp add: caretValueParsers_def CMD_def)
  ultimately show ?thesis
    by (simp only: parse_with_def parseCmds_plus_CPINR)
qed

text \<open>
  C9.  \<^verbatim>\<open>CPINR::id()\<close> is \<^verbatim>\<open>"CPIN"\<close>, the tag of CPIN.  Every input that begins with
  \<^verbatim>\<open>+CPINR:\<close> is a terminal failure, \<open>(-1, nullptr)\<close>: after the matched text \<^verbatim>\<open>CPIN\<close> stands
  an \<^verbatim>\<open>R\<close>, neither a colon nor a carriage return.  And \<^verbatim>\<open>CPINR::parse\<close> is unreachable
  from \<^verbatim>\<open>AtResponse::parse\<close>: on every input the result is the same whatever function
  stands in the registry as the payload parser of CPINR.
\<close>

theorem C9_CPINR_unreachable:
  "id_of CPINR = id_of CPIN \<and>
   AtResponse_parse ext (''+CPINR:'' @ tail) = Some (- 1, None) \<and>
   parse_with (parsers(CPINR := f)) str = parse_with parsers str"
proof -
  have "AtResponse_parse ext (''+CPINR:'' @ tail) = Some (- 1, None)"
    by (simp add: parse_defs)
  then show ?thesis
    by (simp add: parse_with_CPINR)
qed

section \<open>Properties of the queries on a response\<close>

text \<open>
  C10.  For every struct \<open>T\<close> with a tag, \<^verbatim>\<open>holds<T>()\<close> is true exactly when the response
  holds a \<open>T\<close> or holds a \<^verbatim>\<open>ParseError\<close> whose \<^verbatim>\<open>cmd\<close> equals \<^verbatim>\<open>T::id()\<close>; so it is true of
  the \<^verbatim>\<open>ParseError\<close> that \<^verbatim>\<open>makeParseErrorFor<T>()\<close> builds, for CLCC, CSQ and CPIN as for
  every other struct.  The specialisations for \<^verbatim>\<open>OK\<close>, \<^verbatim>\<open>SmsPrompt\<close> and \<^verbatim>\<open>std::string\<close> are
  true only when that alternative is active, and false of every \<^verbatim>\<open>ParseError\<close>.
\<close>

theorem C10_holds:
  "holds T r = (holds_alternative T r \<or> r = ParseError (id_of T)) \<and>
   holds T (makeParseErrorFor T :: 'x AtResponse) \<and>
   holds CLCC (V_CLCC calls :: 'x AtResponse) \<and>
   holds CLCC (ParseError ''CLCC'' :: 'x AtResponse) \<and>
   holds CSQ (ParseError ''CSQ'' :: 'x AtResponse) \<and>
   holds CPIN (ParseError ''CPIN'' :: 'x AtResponse) \<and>
   holds_OK r = (r = OK) \<and>
   holds_SmsPrompt r = (r = SmsPrompt) \<and>
   holds_string r = (\<exists>s. r = StdString s) \<and>
   \<not> holds_OK (ParseError c :: 'x AtResponse) \<and>
   \<not> holds_SmsPrompt (ParseError c :: 'x AtResponse) \<and>
   \<not> holds_string (ParseError c :: 'x AtResponse)"
proof -
  have "holds T r = (holds_alternative T r \<or> r = ParseError (id_of T))"
    by (cases r) (auto simp: holds_def holds_alternative_def)
  moreover have "holds_OK r = (r = OK)"
    by (cases r) (simp_all add: holds_OK_def)
  moreover have "holds_SmsPrompt r = (r = SmsPrompt)"
    by (cases r) (simp_all add: holds_SmsPrompt_def)
  moreover have "holds_string r = (\<exists>s. r = StdString s)"
    by (cases r) (simp_all add: holds_string_def)
  ultimately show ?thesis
    by (simp add: holds_def holds_alternative_def makeParseErrorFor_def holds_OK_def
        holds_SmsPrompt_def holds_string_def)
qed

section \<open>Properties of the identifier allocator\<close>

text \<open>The free list stays strictly descending, as the \<^verbatim>\<open>std::set\<close> keeps it; its last
  element is then its least.  Within the range of \<^verbatim>\<open>int32_t\<close> the word operations on the
  counter are those of the integers.\<close>

lemma set_insert_set: "set (set_insert x ys) = insert x (set ys)"
  by (induction ys) auto

lemma sint_neq: "x \<noteq> y \<Longrightarrow> sint x \<noteq> sint (y :: 32 word)"
  by (auto dest: signed_word_eqI)

lemma set_insert_descending: "descending ys \<Longrightarrow> descending (set_insert x ys)"
  unfolding descending_def
proof (induction ys)
  case Nil
  then show ?case by simp
next
  case (Cons y ys)
  show ?case
  proof (cases "x = y")
    case True
    with Cons.prems show ?thesis by simp
  next
    case False
    then have ne: "sint x \<noteq> sint y" by (rule sint_neq)
    show ?thesis
    proof (cases "sint y < sint x")
      case True
      with Cons.prems False show ?thesis by (auto intro: less_trans)
    next
      case False
      with ne have "sint x < sint y" by simp
      with Cons \<open>x \<noteq> y\<close> False show ?thesis by (auto simp: set_insert_set)
    qed
  qed
qed

lemma descending_last_le: "descending xs \<Longrightarrow> y \<in> set xs \<Longrightarrow> sint (last xs) \<le> sint y"
  unfolding descending_def by (induction xs) (auto simp: less_imp_le)

lemma descending_distinct: "descending xs \<Longrightarrow> distinct xs"
  unfolding descending_def by (induction xs) auto

lemma butlast_set:
  assumes "descending xs" and "xs \<noteq> []"
  shows "set (butlast xs) = set xs - {last xs}"
proof -
  have "distinct (butlast xs @ [last xs])"
    using descending_distinct [OF assms(1)] assms(2) by simp
  then have "last xs \<notin> set (butlast xs)" by simp
  moreover have "set xs = insert (last xs) (set (butlast xs))"
    using assms(2) by (metis append_butlast_last_id list.simps(15) rotate1.simps(2) set_rotate1)
  ultimately show ?thesis by auto
qed

lemma butlast_descending: "descending xs \<Longrightarrow> descending (butlast xs)"
  unfolding descending_def by (induction xs) (auto dest: in_set_butlastD)

lemma put_loop_run:
  "\<exists>k. xs = map (\<lambda>j. g - of_nat j) [0..<k] @ fst (put_loop xs g) \<and>
       snd (put_loop xs g) = g - of_nat k \<and>
       (fst (put_loop xs g) = [] \<or> hd (fst (put_loop xs g)) \<noteq> snd (put_loop xs g))"
proof (induction xs arbitrary: g)
  case Nil
  show ?case by (rule exI [of _ 0]) simp
next
  case (Cons x xs)
  show ?case
  proof (cases "x = g")
    case False
    then show ?thesis by (intro exI [of _ 0]) simp
  next
    case True
    from Cons [of "g - 1"] obtain k where
      k: "xs = map (\<lambda>j. g - 1 - of_nat j) [0..<k] @ fst (put_loop xs (g - 1))"
         "snd (put_loop xs (g - 1)) = g - 1 - of_nat k"
         "fst (put_loop xs (g - 1)) = [] \<or> hd (fst (put_loop xs (g - 1))) \<noteq> snd (put_loop xs (g - 1))"
      by blast
    have m: "map (\<lambda>j. g - of_nat j) [0..<Suc k] = g # map (\<lambda>j. g - 1 - of_nat j) [0..<k]"
      by (simp add: upt_conv_Cons map_Suc_upt [symmetric] diff_diff_eq del: upt_Suc)
    show ?thesis
    proof (intro exI [of _ "Suc k"] conjI)
      show "x # xs = map (\<lambda>j. g - of_nat j) [0..<Suc k] @ fst (put_loop (x # xs) g)"
        using True k(1) by (simp only: m) simp
      show "snd (put_loop (x # xs) g) = g - of_nat (Suc k)"
        using True k(2) by (simp add: diff_diff_eq)
      show "fst (put_loop (x # xs) g) = [] \<or> hd (fst (put_loop (x # xs) g)) \<noteq> snd (put_loop (x # xs) g)"
        using True k(3) by simp
    qed
  qed
qed

lemma put_loop_descending: "descending xs \<Longrightarrow> descending (fst (put_loop xs g))"
  unfolding descending_def by (induction xs arbitrary: g) auto

lemma descending_Nil: "descending []"
  by (simp add: descending_def)

lemma get_descending:
  "descending (mReturnedIds a) \<Longrightarrow> descending (mReturnedIds (snd (IdAllocator_get a)))"
  by (simp add: IdAllocator_get_def butlast_descending descending_Nil)

lemma put_descending:
  "descending (mReturnedIds a) \<Longrightarrow> descending (mReturnedIds (IdAllocator_put a i))"
  by (simp add: IdAllocator_put_def set_insert_descending put_loop_descending split_beta)

lemma run_ops_descending:
  "descending (mReturnedIds a) \<Longrightarrow> descending (mReturnedIds (run_ops a ops))"
proof (induction ops arbitrary: a)
  case Nil
  then show ?case by simp
next
  case (Cons op ops)
  then show ?case by (cases op) (simp_all add: get_descending put_descending)
qed

lemma sint_diff_of_nat:
  fixes g :: "32 word"
  assumes "- (2 ^ 31) \<le> sint g - int n"
  shows "sint (g - of_nat n) = sint g - int n"
proof -
  have "sint g < 2 ^ 31" using sint_lt [of g] by simp
  then have up: "sint g - int n < 2 ^ 31" by simp
  have "g - of_nat n = word_of_int (sint g - int n)"
    by simp
  then have "sint (g - of_nat n) = signed_take_bit 31 (sint g - int n)"
    by (simp only: sint_sbintrunc') simp
  also have "\<dots> = sint g - int n"
    by (rule signed_take_bit_int_eq_self [OF assms up])
  finally show ?thesis .
qed

lemma sint_add_1:
  fixes g :: "32 word"
  assumes "sint g < 2 ^ 31 - 1"
  shows "sint (g + 1) = sint g + 1"
proof -
  have lo: "- (2 ^ 31) \<le> sint g + 1" using sint_ge [of g] by simp
  have up: "sint g + 1 < 2 ^ 31" using assms by simp
  have "g + 1 = word_of_int (sint g + 1)"
    by simp
  then have "sint (g + 1) = signed_take_bit 31 (sint g + 1)"
    by (simp only: sint_sbintrunc') simp
  also have "\<dots> = sint g + 1"
    by (rule signed_take_bit_int_eq_self [OF lo up])
  finally show ?thesis .
qed

text \<open>At the upper bound of \<^verbatim>\<open>int32_t\<close> the increment of the counter wraps.\<close>

lemma IdAllocator_get_wraps:
  "IdAllocator_get \<lparr>mReturnedIds = [], mIdGenerator = 2147483647\<rparr> =
     (- 2147483648, \<lparr>mReturnedIds = [], mIdGenerator = - 2147483648\<rparr>) \<and>
   sint (- 2147483648 :: 32 word) = - 2147483648"
  by (simp add: IdAllocator_get_def)

text \<open>
  C7, as the code has it.  Let \<open>a\<close> be the allocator after any sequence of operations on
  a new one.  When the free list is not empty, \<^verbatim>\<open>get()\<close> returns its least element, the
  smallest identifier freed and not reissued, and removes it; otherwise it increments the
  counter and returns it, and below \<open>2^31 - 1\<close> the new value is the old one plus 1.
  \<^verbatim>\<open>put(id)\<close> with an \<open>id\<close> other than the counter adds \<open>id\<close> to the free list and leaves
  the counter.  \<^verbatim>\<open>put(id)\<close> with an \<open>id\<close> equal to the counter decrements the counter and
  then goes on past the \<open>k\<close> greatest elements of the free list that are consecutive with
  it: they are removed, the counter ends \<open>1 + k\<close> decrements below its old value, and the
  greatest element left, if any, is not the new counter.  As long as that end is not
  below \<open>- 2^31\<close>, the elements removed are \<open>counter - 1, \<dots>, counter - k\<close> and the counter
  ends at \<open>counter - 1 - k\<close> as integers.
\<close>

theorem C7_IdAllocator:
  assumes "a = run_ops IdAllocator_new ops"
  shows "(mReturnedIds a \<noteq> [] \<longrightarrow>
            (\<exists>m. IdAllocator_get a = (m, a\<lparr>mReturnedIds := butlast (mReturnedIds a)\<rparr>) \<and>
                 m \<in> set (mReturnedIds a) \<and>
                 (\<forall>y \<in> set (mReturnedIds a). sint m \<le> sint y) \<and>
                 set (butlast (mReturnedIds a)) = set (mReturnedIds a) - {m})) \<and>
         (mReturnedIds a = [] \<longrightarrow>
            IdAllocator_get a = (mIdGenerator a + 1, a\<lparr>mIdGenerator := mIdGenerator a + 1\<rparr>) \<and>
            (sint (mIdGenerator a) < 2 ^ 31 - 1 \<longrightarrow>
               sint (mIdGenerator a + 1) = sint (mIdGenerator a) + 1)) \<and>
         (i \<noteq> mIdGenerator a \<longrightarrow>
            mIdGenerator (IdAllocator_put a i) = mIdGenerator a \<and>
            set (mReturnedIds (IdAllocator_put a i)) = insert i (set (mReturnedIds a))) \<and>
         (i = mIdGenerator a \<longrightarrow>
            (\<exists>k. mReturnedIds a =
                   map (\<lambda>j. mIdGenerator a - 1 - of_nat j) [0..<k] @
                   mReturnedIds (IdAllocator_put a i) \<and>
                 mIdGenerator (IdAllocator_put a i) = mIdGenerator a - 1 - of_nat k \<and>
                 (mReturnedIds (IdAllocator_put a i) = [] \<or>
                  hd (mReturnedIds (IdAllocator_put a i)) \<noteq> mIdGenerator (IdAllocator_put a i)) \<and>
                 (- (2 ^ 31) \<le> sint (mIdGenerator a) - 1 - int k \<longrightarrow>
                    sint (mIdGenerator (IdAllocator_put a i)) = sint (mIdGenerator a) - 1 - int k \<and>
                    (\<forall>j<k. sint (mIdGenerator a - 1 - of_nat j) = sint (mIdGenerator a) - 1 - int j))))"
proof -
  let ?ids = "mReturnedIds a" and ?g = "mIdGenerator a"
  have s: "descending ?ids"
    unfolding assms by (rule run_ops_descending) (simp add: IdAllocator_new_def descending_Nil)
  have g1: "\<exists>m. IdAllocator_get a = (m, a\<lparr>mReturnedIds := butlast ?ids\<rparr>) \<and>
                 m \<in> set ?ids \<and> (\<forall>y \<in> set ?ids. sint m \<le> sint y) \<and>
                 set (butlast ?ids) = set ?ids - {m}"
    if ne: "?ids \<noteq> []"
  proof (intro exI [of _ "last ?ids"] conjI ballI)
    show "IdAllocator_get a = (last ?ids, a\<lparr>mReturnedIds := butlast ?ids\<rparr>)"
      using ne by (simp add: IdAllocator_get_def)
    show "last ?ids \<in> set ?ids" using ne by simp
    show "sint (last ?ids) \<le> sint y" if "y \<in> set ?ids" for y
      by (rule descending_last_le [OF s that])
    show "set (butlast ?ids) = set ?ids - {last ?ids}"
      by (rule butlast_set [OF s ne])
  qed
  have g2: "IdAllocator_get a = (?g + 1, a\<lparr>mIdGenerator := ?g + 1\<rparr>) \<and>
            (sint ?g < 2 ^ 31 - 1 \<longrightarrow> sint (?g + 1) = sint ?g + 1)"
    if "?ids = []"
    using that sint_add_1 [of ?g] by (simp add: IdAllocator_get_def)
  have p1: "mIdGenerator (IdAllocator_put a i) = ?g \<and>
            set (mReturnedIds (IdAllocator_put a i)) = insert i (set ?ids)"
    if "i \<noteq> ?g"
    using that by (simp add: IdAllocator_put_def set_insert_set)
  have p2: "\<exists>k. ?ids = map (\<lambda>j. ?g - 1 - of_nat j) [0..<k] @ mReturnedIds (IdAllocator_put a i) \<and>
                 mIdGenerator (IdAllocator_put a i) = ?g - 1 - of_nat k \<and>
                 (mReturnedIds (IdAllocator_put a i) = [] \<or>
                  hd (mReturnedIds (IdAllocator_put a i)) \<noteq> mIdGenerator (IdAllocator_put a i)) \<and>
                 (- (2 ^ 31) \<le> sint ?g - 1 - int k \<longrightarrow>
                    sint (mIdGenerator (IdAllocator_put a i)) = sint ?g - 1 - int k \<and>
                    (\<forall>j<k. sint (?g - 1 - of_nat j) = sint ?g - 1 - int j))"
    if eq: "i = ?g"
  proof -
    let ?p = "IdAllocator_put a i"
    from put_loop_run [of ?ids "?g - 1"] eq obtain k where
      k1: "?ids = map (\<lambda>j. ?g - 1 - of_nat j) [0..<k] @ mReturnedIds ?p"
      and k2: "mIdGenerator ?p = ?g - 1 - of_nat k"
      and k3: "mReturnedIds ?p = [] \<or> hd (mReturnedIds ?p) \<noteq> mIdGenerator ?p"
      by (auto simp: IdAllocator_put_def split_beta)
    have r: "sint (?g - 1 - of_nat j) = sint ?g - 1 - int j"
      if "- (2 ^ 31) \<le> sint ?g - 1 - int k" and "j \<le> k" for j
    proof -
      have e: "?g - 1 - of_nat j = ?g - of_nat (Suc j)" by (simp add: diff_diff_eq)
      have "sint (?g - of_nat (Suc j)) = sint ?g - int (Suc j)"
        by (rule sint_diff_of_nat) (use that in simp)
      then show ?thesis unfolding e by simp
    qed
    have "sint (mIdGenerator ?p) = sint ?g - 1 - int k \<and>
          (\<forall>j<k. sint (?g - 1 - of_nat j) = sint ?g - 1 - int j)"
      if "- (2 ^ 31) \<le> sint ?g - 1 - int k"
      using r [OF that] k2 by simp
    with k1 k2 k3 show ?thesis by blast
  qed
  from g1 g2 p1 p2 show ?thesis by blast
qed

theorem C7_IdAllocator_witness:
  "IdAllocator_get (run_ops IdAllocator_new [Get, Get, Get, Put 1, Put 2]) =
     (1, \<lparr>mReturnedIds = [2], mIdGenerator = 3\<rparr>) \<and>
   IdAllocator_get (run_ops IdAllocator_new [Get]) = (2, \<lparr>mReturnedIds = [], mIdGenerator = 2\<rparr>) \<and>
   sint (2 :: 32 word) = 2 \<and>
   set (mReturnedIds (IdAllocator_put (run_ops IdAllocator_new [Get, Get, Get, Put 1, Put 2]) 7)) =
     {7, 2, 1} \<and>
   IdAllocator_put (run_ops IdAllocator_new [Get, Get, Get, Put 1, Put 2]) 3 =
     \<lparr>mReturnedIds = [], mIdGenerator = 0\<rparr>"
proof -
  let ?a = "\<lparr>mReturnedIds = [2, 1], mIdGenerator = 3\<rparr>"
  let ?b = "\<lparr>mReturnedIds = [], mIdGenerator = 1\<rparr>"
  have a: "?a = run_ops IdAllocator_new [Get, Get, Get, Put 1, Put 2]"
    by (simp add: IdAllocator_new_def IdAllocator_get_def IdAllocator_put_def)
  have b: "?b = run_ops IdAllocator_new [Get]"
    by (simp add: IdAllocator_new_def IdAllocator_get_def)
  have "IdAllocator_get ?a = (1, \<lparr>mReturnedIds = [2], mIdGenerator = 3\<rparr>)"
    using C7_IdAllocator [OF a, of 7] by (simp add: IdAllocator_get_def)
  moreover have "IdAllocator_get ?b = (2, \<lparr>mReturnedIds = [], mIdGenerator = 2\<rparr>) \<and>
      sint (2 :: 32 word) = 2"
    using C7_IdAllocator [OF b, of 7] by simp
  moreover have "set (mReturnedIds (IdAllocator_put ?a 7)) = {7, 2, 1}"
    using C7_IdAllocator [OF a, of 7] by simp
  moreover have "IdAllocator_put ?a 3 = \<lparr>mReturnedIds = [], mIdGenerator = 0\<rparr>"
  proof -
    let ?p = "IdAllocator_put ?a 3"
    from C7_IdAllocator [OF a, of 3] obtain k where
      k1: "[2, 1] = map (\<lambda>j. 2 - of_nat j) [0..<k] @ mReturnedIds ?p"
      and k2: "mIdGenerator ?p = 2 - of_nat k"
      and k3: "mReturnedIds ?p = [] \<or> hd (mReturnedIds ?p) \<noteq> mIdGenerator ?p"
      by auto
    have "length [2, 1 :: 32 word] = length (map (\<lambda>j. 2 - of_nat j :: 32 word) [0..<k] @ mReturnedIds ?p)"
      using k1 by (rule arg_cong)
    then have "k \<le> 2" by simp
    then consider "k = 0" | "k = 1" | "k = 2" by linarith
    then have "mReturnedIds ?p = [] \<and> mIdGenerator ?p = 0"
    proof cases
      case 1
      with k1 k2 k3 show ?thesis by auto
    next
      case 2
      with k1 k2 k3 show ?thesis by auto
    next
      case 3
      with k1 k2 show ?thesis by (simp add: numeral_2_eq_2)
    qed
    then show ?thesis by (cases ?p) simp
  qed
  ultimately show ?thesis
    by (simp only: a [symmetric] b [symmetric])
qed

text \<open>
  The claim C7 as the specification states it fails where it speaks of the identifier
  issued most recently: after \<^verbatim>\<open>get\<close>, \<^verbatim>\<open>get\<close>, \<^verbatim>\<open>put(1)\<close> the next \<^verbatim>\<open>get\<close> issues 1 again, and
  \<^verbatim>\<open>put(1)\<close> then adds 1 to the free list and leaves the counter at 2; the counter is
  decremented only by a \<^verbatim>\<open>put\<close> of the value of the counter.
\<close>

theorem C7_counterexample:
  "IdAllocator_get (run_ops IdAllocator_new [Get, Get, Put 1]) =
     (1, \<lparr>mReturnedIds = [], mIdGenerator = 2\<rparr>) \<and>
   IdAllocator_put (run_ops IdAllocator_new [Get, Get, Put 1, Get]) 1 =
     \<lparr>mReturnedIds = [1], mIdGenerator = 2\<rparr>"
  by (simp add: IdAllocator_new_def IdAllocator_get_def IdAllocator_put_def)

section \<open>Properties of the conversation\<close>

lemma send_claims:
  "Conversation_inv conv \<Longrightarrow> satisfies conv r \<Longrightarrow>
   Conversation_send conv r = Inr (True, conv\<lparr>mFilter := None, mSink := Some (Some r)\<rparr>)"
  by (auto simp: Conversation_inv_def satisfies_def Conversation_send_def split: option.splits)

lemma send_declines:
  "\<not> satisfies conv r \<Longrightarrow> Conversation_send conv r = Inr (False, conv)"
  by (auto simp: satisfies_def Conversation_send_def split: option.splits)

lemma deliver_disarmed:
  "mFilter conv = None \<Longrightarrow> deliver conv rs = Inr (replicate (length rs) False, conv)"
  by (induction rs) (simp_all add: Conversation_send_def)

lemma deliver_declined:
  "\<forall>r \<in> set rs. \<not> satisfies conv r \<Longrightarrow>
   deliver conv rs = Inr (replicate (length rs) False, conv)"
  by (induction rs) (simp_all add: send_declines)

lemma count_replicate_False: "count_list (replicate n False) True = 0"
  by (induction n) simp_all

lemma deliver_inv:
  assumes "Conversation_inv conv"
  shows "\<exists>bs c. deliver conv rs = Inr (bs, c) \<and> Conversation_inv c \<and> count_list bs True \<le> 1"
  using assms
proof (induction rs arbitrary: conv)
  case Nil
  then show ?case by simp
next
  case (Cons r rs)
  show ?case
  proof (cases "satisfies conv r")
    case True
    let ?c = "conv\<lparr>mFilter := None, mSink := Some (Some r)\<rparr>"
    have 1: "Conversation_send conv r = Inr (True, ?c)"
      by (rule send_claims [OF Cons.prems True])
    have 2: "deliver ?c rs = Inr (replicate (length rs) False, ?c)"
      by (rule deliver_disarmed) simp
    have 3: "deliver conv (r # rs) = Inr (True # replicate (length rs) False, ?c)"
      by (simp add: 1 2)
    have 4: "Conversation_inv ?c" by (simp add: Conversation_inv_def)
    have 5: "count_list (True # replicate (length rs) False) True \<le> 1"
      by (simp add: count_replicate_False)
    from 3 4 5 show ?thesis by blast
  next
    case False
    have 1: "Conversation_send conv r = Inr (False, conv)"
      by (rule send_declines [OF False])
    from Cons.IH [OF Cons.prems] obtain bs c where
      2: "deliver conv rs = Inr (bs, c)" and 3: "Conversation_inv c" and 4: "count_list bs True \<le> 1"
      by blast
    have "deliver conv (r # rs) = Inr (False # bs, c)"
      by (simp add: 1 2)
    moreover have "count_list (False # bs) True \<le> 1"
      using 4 by simp
    ultimately show ?thesis using 3 by blast
  qed
qed


lemma Conversation_inv_new: "Conversation_inv Conversation_new"
  by (simp add: Conversation_inv_def Conversation_new_def)

lemma Conversation_inv_arm: "Conversation_inv (Conversation_arm conv f)"
  by (simp add: Conversation_inv_def Conversation_arm_def)

lemma Conversation_inv_disarm: "Conversation_inv (conv\<lparr>mFilter := None\<rparr>)"
  by (simp add: Conversation_inv_def)

lemma Conversation_inv_send:
  "Conversation_inv conv \<Longrightarrow> Conversation_send conv r = Inr (b, c) \<Longrightarrow> Conversation_inv c"
  by (auto simp: Conversation_inv_def Conversation_send_def split: option.splits if_splits)

text \<open>
  C5.  In every state a conversation can be in, \<^verbatim>\<open>send(response)\<close> returns true, disarms
  the predicate and sets the value of the promise exactly when a predicate is armed and
  the response satisfies it; otherwise it returns false and changes nothing.  So, after
  a request is armed, however many responses are delivered, no \<^verbatim>\<open>send\<close> throws and at most
  one of them answers true: the promise is fulfilled at most once.
\<close>

theorem C5_send_claims_at_most_once:
  fixes conv conv' :: "'x Conversation"
  assumes "Conversation_inv conv"
  shows "Conversation_send conv r =
           (if satisfies conv r
            then Inr (True, conv\<lparr>mFilter := None, mSink := Some (Some r)\<rparr>)
            else Inr (False, conv)) \<and>
         (\<exists>bs c. deliver (Conversation_arm conv' f) rs = Inr (bs, c) \<and> count_list bs True \<le> 1)"
proof -
  have "Conversation_send conv r =
           (if satisfies conv r
            then Inr (True, conv\<lparr>mFilter := None, mSink := Some (Some r)\<rparr>)
            else Inr (False, conv))"
    using send_claims [OF assms, of r] send_declines [of conv r] by simp
  moreover have "\<exists>bs c. deliver (Conversation_arm conv' f) rs = Inr (bs, c) \<and> count_list bs True \<le> 1"
    using deliver_inv [OF Conversation_inv_arm, of conv' f rs] by blast
  ultimately show ?thesis by simp
qed

theorem C5_send_claims_at_most_once_witness:
  "Conversation_inv (Conversation_arm Conversation_new isOK :: unit Conversation) \<and>
   Conversation_send (Conversation_arm Conversation_new isOK) (OK :: unit AtResponse) =
     Inr (True, \<lparr>mFilter = None, mSink = Some (Some OK)\<rparr>) \<and>
   Conversation_send (Conversation_arm Conversation_new isOK) (ERROR :: unit AtResponse) =
     Inr (False, Conversation_arm Conversation_new isOK) \<and>
   deliver (Conversation_arm Conversation_new isOK) [RING, OK, OK, ERROR, OK :: unit AtResponse] =
     Inr ([False, True, False, False, False], \<lparr>mFilter = None, mSink = Some (Some OK)\<rparr>)"
proof -
  have i: "Conversation_inv (Conversation_arm Conversation_new isOK :: unit Conversation)"
    by (rule Conversation_inv_arm)
  have "Conversation_send (Conversation_arm Conversation_new isOK) (OK :: unit AtResponse) =
     Inr (True, \<lparr>mFilter = None, mSink = Some (Some OK)\<rparr>)"
    using C5_send_claims_at_most_once [OF i, where r = OK and conv' = Conversation_new and f = isOK and rs = "[]"]
    by (simp add: satisfies_def Conversation_arm_def Conversation_new_def isOK_def)
  moreover have "Conversation_send (Conversation_arm Conversation_new isOK) (ERROR :: unit AtResponse) =
     Inr (False, Conversation_arm Conversation_new isOK)"
    using C5_send_claims_at_most_once [OF i, where r = ERROR and conv' = Conversation_new and f = isOK and rs = "[]"]
    by (simp add: satisfies_def Conversation_arm_def Conversation_new_def isOK_def)
  moreover have "deliver (Conversation_arm Conversation_new isOK)
      [RING, OK, OK, ERROR, OK :: unit AtResponse] =
     Inr ([False, True, False, False, False], \<lparr>mFilter = None, mSink = Some (Some OK)\<rparr>)"
    by (simp add: Conversation_send_def Conversation_arm_def Conversation_new_def isOK_def)
  ultimately show ?thesis using i by simp
qed

text \<open>
  C4.  Whatever the reader delivers meanwhile: if the transmission of the request fails,
  \<^verbatim>\<open>operator()\<close> returns \<^verbatim>\<open>nullptr\<close> after the write alone, without waiting; if the
  transmission succeeds and no response delivered up to the timeout satisfies the
  predicate, it waits, logs the request that timed out and returns \<^verbatim>\<open>nullptr\<close>.  In both
  cases the predicate is disarmed afterwards.
\<close>

theorem C4_call_failures:
  "(\<not> requestPipe request \<longrightarrow>
      (\<exists>c. Conversation_call conv requestPipe request f timeout before within late =
             Inr (None, c, [Write request]) \<and> mFilter c = None)) \<and>
   (requestPipe request \<and> (\<forall>r \<in> set (before @ within). \<not> f r) \<longrightarrow>
      (\<exists>c. Conversation_call conv requestPipe request f timeout before within late =
             Inr (None, c, [Write request, WaitFor timeout, LogTimeout request]) \<and>
           mFilter c = None))"
proof -
  let ?armed = "Conversation_arm conv f"
  have inv: "Conversation_inv ?armed" by (rule Conversation_inv_arm)
  have a: "\<exists>c. Conversation_call conv requestPipe request f timeout before within late =
             Inr (None, c, [Write request]) \<and> mFilter c = None"
    if "\<not> requestPipe request"
  proof -
    from deliver_inv [OF inv, of before] obtain bs c1 where
      "deliver ?armed before = Inr (bs, c1)" by blast
    with that show ?thesis by (simp add: Conversation_call_def)
  qed
  have b: "\<exists>c. Conversation_call conv requestPipe request f timeout before within late =
             Inr (None, c, [Write request, WaitFor timeout, LogTimeout request]) \<and>
           mFilter c = None"
    if ok: "requestPipe request" and no: "\<forall>r \<in> set (before @ within). \<not> f r"
  proof -
    have s: "satisfies ?armed r = f r" for r
      by (simp add: satisfies_def Conversation_arm_def)
    have 1: "deliver ?armed before = Inr (replicate (length before) False, ?armed)"
      by (rule deliver_declined) (use no in \<open>simp add: s\<close>)
    have 2: "deliver ?armed within = Inr (replicate (length within) False, ?armed)"
      by (rule deliver_declined) (use no in \<open>simp add: s\<close>)
    have 3: "mSink ?armed = None" by (simp add: Conversation_arm_def)
    from deliver_inv [OF inv, of late] obtain bs c3 where
      4: "deliver ?armed late = Inr (bs, c3)" by blast
    show ?thesis using ok by (simp add: Conversation_call_def 1 2 3 4)
  qed
  from a b show ?thesis by blast
qed

theorem C4_call_failures_witness:
  "Conversation_call (Conversation_new :: unit Conversation) ((=) ''ATZ'') ''AT+CSQ'' isOK 3 [RING] [ERROR] [] =
     Inr (None, \<lparr>mFilter = None, mSink = None\<rparr>, [Write ''AT+CSQ'']) \<and>
   Conversation_call (Conversation_new :: unit Conversation) ((=) ''AT+CSQ'') ''AT+CSQ'' isOK 3
       [RING] [ERROR] [OK] =
     Inr (None, \<lparr>mFilter = None, mSink = Some (Some OK)\<rparr>,
          [Write ''AT+CSQ'', WaitFor 3, LogTimeout ''AT+CSQ''])"
proof -
  have "Conversation_call (Conversation_new :: unit Conversation) ((=) ''ATZ'') ''AT+CSQ'' isOK 3 [RING] [ERROR] [] =
     Inr (None, \<lparr>mFilter = None, mSink = None\<rparr>, [Write ''AT+CSQ''])"
    using C4_call_failures [of "(=) ''ATZ''" "''AT+CSQ''" "Conversation_new :: unit Conversation" isOK 3 "[RING]" "[ERROR]" "[]"]
    by (simp add: Conversation_call_def Conversation_send_def Conversation_arm_def
        Conversation_new_def isOK_def)
  moreover have "Conversation_call (Conversation_new :: unit Conversation) ((=) ''AT+CSQ'') ''AT+CSQ'' isOK 3
       [RING] [ERROR] [OK] =
     Inr (None, \<lparr>mFilter = None, mSink = Some (Some OK)\<rparr>,
          [Write ''AT+CSQ'', WaitFor 3, LogTimeout ''AT+CSQ''])"
    using C4_call_failures [of "(=) ''AT+CSQ''" "''AT+CSQ''" "Conversation_new :: unit Conversation" isOK 3 "[RING]" "[ERROR]" "[OK]"]
    by (simp add: Conversation_call_def Conversation_send_def Conversation_arm_def
        Conversation_new_def isOK_def)
  ultimately show ?thesis by simp
qed

section \<open>Properties of the broadcast\<close>

lemma remove_detached_eq:
  "remove_detached sinks r =
     (filter (\<lambda>s. sink_call s r) sinks, map (\<lambda>s. (sink_id s, r)) sinks)"
  by (induction sinks) (simp_all add: Let_def)

text \<open>
  C2, as the code has it.  \<^verbatim>\<open>broadcastResponse\<close> offers the response to the conversation
  of the channel, which claims it exactly when its armed predicate is satisfied, and,
  claimed or not, calls every registered subscriber exactly once, in the order of
  registration; the subscribers that answer false are removed.
\<close>

theorem C2_broadcast_to_all:
  assumes "Conversation_inv (mConversation ch)"
  shows "\<exists>conv'. Conversation_send (mConversation ch) r = Inr (satisfies (mConversation ch) r, conv') \<and>
           broadcastResponse ch r =
             Inr (\<lparr>mConversation = conv',
                   mResponseSinks = filter (\<lambda>s. sink_call s r) (mResponseSinks ch)\<rparr>,
                  map (\<lambda>s. (sink_id s, r)) (mResponseSinks ch))"
proof (cases "satisfies (mConversation ch) r")
  case True
  from send_claims [OF assms True] show ?thesis
    using True by (simp add: broadcastResponse_def remove_detached_eq)
next
  case False
  from send_declines [OF False] show ?thesis
    using False by (simp add: broadcastResponse_def remove_detached_eq)
qed

theorem C2_broadcast_to_all_witness:
  "Conversation_inv (Conversation_new :: unit Conversation) \<and>
   broadcastResponse
     \<lparr>mConversation = Conversation_new,
      mResponseSinks = [\<lparr>sink_id = 0, sink_call = isOK\<rparr>, \<lparr>sink_id = 1, sink_call = isERROR\<rparr>]\<rparr>
     (ERROR :: unit AtResponse) =
   Inr (\<lparr>mConversation = Conversation_new, mResponseSinks = [\<lparr>sink_id = 1, sink_call = isERROR\<rparr>]\<rparr>,
        [(0, ERROR), (1, ERROR)])"
proof -
  have i: "Conversation_inv (Conversation_new :: unit Conversation)"
    by (rule Conversation_inv_new)
  let ?ch = "\<lparr>mConversation = Conversation_new :: unit Conversation,
      mResponseSinks = [\<lparr>sink_id = 0, sink_call = isOK\<rparr>, \<lparr>sink_id = 1, sink_call = isERROR\<rparr>]\<rparr>"
  have "Conversation_inv (mConversation ?ch)" using i by simp
  from C2_broadcast_to_all [OF this, of ERROR] i show ?thesis
    by (auto simp: satisfies_def Conversation_new_def Conversation_send_def isOK_def isERROR_def)
qed

text \<open>
  The claim C2 as the specification states it fails: a response that the armed predicate
  claims is delivered to the subscriber as well.
\<close>

theorem C2_counterexample:
  "Conversation_send \<lparr>mFilter = Some isOK, mSink = None\<rparr> (OK :: unit AtResponse) =
     Inr (True, \<lparr>mFilter = None, mSink = Some (Some OK)\<rparr>) \<and>
   broadcastResponse
     \<lparr>mConversation = \<lparr>mFilter = Some isOK, mSink = None\<rparr>,
      mResponseSinks = [\<lparr>sink_id = 0, sink_call = isOK\<rparr>]\<rparr> (OK :: unit AtResponse) =
   Inr (\<lparr>mConversation = \<lparr>mFilter = None, mSink = Some (Some OK)\<rparr>,
         mResponseSinks = [\<lparr>sink_id = 0, sink_call = isOK\<rparr>]\<rparr>,
        [(0, OK)])"
  by (simp add: Conversation_send_def broadcastResponse_def isOK_def)

end
